theory Spec2Isabelle
  imports Complex_Main "HOL-Library.Product_Lexorder" "HOL-Library.Multiset"
begin

section \<open>Errors and numeric helpers\<close>

text \<open>
  The pipeline of \<^verbatim>\<open>evaluate.py\<close> works on numpy vectors of floats. Entries are
  modelled as exact reals: rounding, overflow and underflow of machine floats are outside
  the model. Every place where the Python raises is a branch that returns \<open>Inl\<close> of the
  exception.
\<close>

datatype error = AssertionError | IndexError | ValueError | AttributeError | KeyError

fun bind_err :: "error + 'a \<Rightarrow> ('a \<Rightarrow> error + 'b) \<Rightarrow> error + 'b" where
  "bind_err (Inl e) f = Inl e"
| "bind_err (Inr x) f = f x"

text \<open>
  \<^verbatim>\<open>math.isclose(a, b, rel_tol, abs_tol)\<close> as CPython computes it on finite values:
  equal values are close, otherwise the difference is compared with both relative bounds
  and with the absolute one.
\<close>

definition isclose :: "real \<Rightarrow> real \<Rightarrow> real \<Rightarrow> real \<Rightarrow> bool" where
  "isclose a b rel_tol abs_tol \<longleftrightarrow>
     a = b \<or> \<bar>b - a\<bar> \<le> \<bar>rel_tol * b\<bar> \<or> \<bar>b - a\<bar> \<le> \<bar>rel_tol * a\<bar> \<or> \<bar>b - a\<bar> \<le> abs_tol"

definition default_rel_tol :: real where
  "default_rel_tol = 1 / 10 ^ 9"

text \<open>\<^verbatim>\<open>sys.float_info.epsilon\<close> of an IEEE double.\<close>

definition float_epsilon :: real where
  "float_epsilon = 1 / 2 ^ 52"

text \<open>
  Arithmetic of two one-dimensional numpy arrays: equal shapes combine entry by entry, a
  one-entry array is broadcast over the other, any other pair of shapes raises ValueError.
\<close>

definition np_binop :: "(real \<Rightarrow> real \<Rightarrow> real) \<Rightarrow> real list \<Rightarrow> real list \<Rightarrow> error + real list" where
  "np_binop f a b =
     (if length a = length b then Inr (map2 f a b)
      else if length a = 1 then Inr (map (f (hd a)) b)
      else if length b = 1 then Inr (map (\<lambda>x. f x (hd b)) a)
      else Inl ValueError)"

section \<open>Agreement metrics\<close>

text \<open>
  \<^verbatim>\<open>fix_zeros(preds, epsilon)\<close>: the loop visits every index of the array and overwrites,
  in place, each entry that is close to zero. The array after the loop is returned.
\<close>

definition fix_zeros_step :: "real \<Rightarrow> nat \<Rightarrow> real list \<Rightarrow> real list" where
  "fix_zeros_step epsilon i preds =
     (if isclose (preds ! i) 0 default_rel_tol 0 then preds[i := epsilon] else preds)"

definition fix_zeros :: "real list \<Rightarrow> real \<Rightarrow> real list" where
  "fix_zeros preds epsilon = fold (fix_zeros_step epsilon) [0..<length preds] preds"

text \<open>
  \<^verbatim>\<open>rank(predictions)\<close> of \<^verbatim>\<open>detect.py\<close>:
  \<^verbatim>\<open>sorted(enumerate(predictions), key=lambda t: t[1], reverse=True)\<close>. Python's
  sort is stable, and with \<^verbatim>\<open>reverse=True\<close> it reverses the input, sorts it stably in
  ascending key order and reverses the outcome; \<open>sort_key\<close> is a stable insertion sort.
\<close>

definition rank :: "real list \<Rightarrow> (nat \<times> real) list" where
  "rank predictions = rev (sort_key snd (rev (enumerate 0 predictions)))"

text \<open>
  Modelled from the spec: \<^verbatim>\<open>harmonic_mean\<close> is imported from \<^verbatim>\<open>detect\<close> but absent
  from the sources. The spec calls it the element-wise harmonic mean of the two
  distributions, that is \<open>2ab / (a + b)\<close> entry by entry on numpy arrays.
\<close>

definition hm_entry :: "real \<Rightarrow> real \<Rightarrow> real" where
  "hm_entry x y = 2 * (x * y) / (x + y)"

definition harmonic_mean :: "real list \<Rightarrow> real list \<Rightarrow> error + real list" where
  "harmonic_mean a b = np_binop hm_entry a b"

text \<open>
  HOL's division is total (\<open>x / 0 = 0\<close>) where numpy yields NaN or an infinity. The
  entries at which the harmonic mean divides by zero are therefore tracked by a predicate
  of their own.
\<close>

definition divides_by_zero :: "real list \<Rightarrow> real list \<Rightarrow> bool" where
  "divides_by_zero a b \<longleftrightarrow>
     (case np_binop (+) a b of Inl e \<Rightarrow> False | Inr ds \<Rightarrow> list_ex (\<lambda>d. d = 0) ds)"

text \<open>
  \<^verbatim>\<open>harmonic_mean_agreement(prefix_pred, suffix_pred)\<close>. Both arguments are overwritten
  by \<^verbatim>\<open>fix_zeros\<close>, so the model returns the two arrays as the call leaves them, next to
  the value or the exception. \<^verbatim>\<open>paired_rankings[0]\<close> raises IndexError on an empty list.
\<close>

definition harmonic_mean_agreement ::
  "real list \<Rightarrow> real list \<Rightarrow> (error + real) \<times> real list \<times> real list" where
  "harmonic_mean_agreement prefix_pred suffix_pred =
     (let prefix_pred' = fix_zeros prefix_pred float_epsilon;
          suffix_pred' = fix_zeros suffix_pred float_epsilon;
          result = bind_err (harmonic_mean prefix_pred' suffix_pred') (\<lambda>mean.
                     case rank mean of
                       [] \<Rightarrow> Inl IndexError
                     | (_, min_prob) # _ \<Rightarrow> Inr min_prob)
      in (result, prefix_pred', suffix_pred'))"

text \<open>
  \<^verbatim>\<open>squared_error_agreement\<close>: \<^verbatim>\<open>entropy = ((prefix_pred - suffix_pred) ** 2).sum()\<close>,
  the result is \<^verbatim>\<open>-entropy\<close>. No argument is written to. The entries are exact reals:
  where the square of a tiny difference underflows to zero on machine floats, the code
  returns a zero score and this definition a non-zero one, so no statement below
  concludes from a zero score that two vectors are equal.
\<close>

definition squared_error_agreement :: "real list \<Rightarrow> real list \<Rightarrow> error + real" where
  "squared_error_agreement prefix_pred suffix_pred =
     bind_err (np_binop (-) prefix_pred suffix_pred) (\<lambda>diff.
       let entropy = sum_list (map (\<lambda>d. d ^ 2) diff) in Inr (- entropy))"

text \<open>
  Modelled from the spec: \<^verbatim>\<open>index_of_max\<close> is imported from \<^verbatim>\<open>detect\<close> but absent
  from the sources. The spec extracts the top prediction through \<^verbatim>\<open>rank\<close>: the id of
  the first ranked pair. An empty vector has no maximum (ValueError).
\<close>

definition index_of_max :: "real list \<Rightarrow> error + nat" where
  "index_of_max preds = (case rank preds of [] \<Rightarrow> Inl ValueError | (i, _) # _ \<Rightarrow> Inr i)"

section \<open>Context windows\<close>

text \<open>\<^verbatim>\<open>xs[i]\<close> for a non-negative index: out of range raises IndexError.\<close>

definition py_index :: "'a list \<Rightarrow> nat \<Rightarrow> error + 'a" where
  "py_index xs i = (if i < length xs then Inr (xs ! i) else Inl IndexError)"

text \<open>\<^verbatim>\<open>SensibilityForEvaluation.sentence_length\<close>.\<close>

definition sentence_length :: nat where
  "sentence_length = 20"

text \<open>
  Modelled from the spec: \<^verbatim>\<open>Sentences\<close> (imported from \<^verbatim>\<open>training_utils\<close>) is absent
  from the sources. A context window is a pair (context, target); the forward window of
  a position holds the \<^verbatim>\<open>size\<close> ids immediately preceding it, the backward window the
  \<^verbatim>\<open>size\<close> ids immediately following it, and the target is the id at the position. The
  caller in \<^verbatim>\<open>rank_and_fix\<close> numbers the zipped windows from \<^verbatim>\<open>sentence_length\<close> on and
  asserts that each forward target is the file vector's entry at that number, so the first
  forward window is the one of position \<^verbatim>\<open>size\<close> (windows for the earlier positions
  would fail that assertion at once); the backward generator starts at position 0, which
  is the offset the spec speaks of. Each generator produces \<^verbatim>\<open>len(vector) - size\<close>
  windows, all of them with the whole context inside the vector and of length \<^verbatim>\<open>size\<close>.
  The order in which a backward context is held is not fixed by the spec and plays no
  role below; it is kept in file order.
\<close>

definition forward_sentence :: "nat list \<Rightarrow> nat \<Rightarrow> nat \<Rightarrow> nat list \<times> nat" where
  "forward_sentence vector wsize i = (take wsize (drop i vector), vector ! (i + wsize))"

definition backward_sentence :: "nat list \<Rightarrow> nat \<Rightarrow> nat \<Rightarrow> nat list \<times> nat" where
  "backward_sentence vector wsize i = (take wsize (drop (Suc i) vector), vector ! i)"

definition Sentences :: "nat list \<Rightarrow> nat \<Rightarrow> bool \<Rightarrow> (nat list \<times> nat) list" where
  "Sentences vector wsize backwards =
     map (if backwards then backward_sentence vector wsize else forward_sentence vector wsize)
       [0..<length vector - wsize]"

text \<open>
  Modelled from the spec: \<^verbatim>\<open>chop_prefix\<close> (imported from \<^verbatim>\<open>detect\<close>) is absent from the
  sources. It is the transform that compensates the backward generator's offset: it drops
  the backward windows of the positions before the first forward window, so that the
  zipped pairing starts at the forward sequence's index.
\<close>

definition chop_prefix :: "'a list \<Rightarrow> 'a list" where
  "chop_prefix sequence = drop sentence_length sequence"

text \<open>\<^verbatim>\<open>SensibilityForEvaluation.contexts\<close>: the zip of the two generators.\<close>

definition contexts :: "nat list \<Rightarrow> ((nat list \<times> nat) \<times> (nat list \<times> nat)) list" where
  "contexts file_vector =
     (let sent_forwards = Sentences file_vector sentence_length False;
          sent_backwards = Sentences file_vector sentence_length True
      in zip sent_forwards (chop_prefix sent_backwards))"

section \<open>The detection loop\<close>

text \<open>
  Modelled from the spec: the type \<^verbatim>\<open>Agreement\<close> (imported from \<^verbatim>\<open>detect\<close>) is absent
  from the sources. It is the pair (probability, index), ordered by score ascending with
  ties broken by index ascending, which is the lexicographic order of pairs;
  \<^verbatim>\<open>least_agreements.sort()\<close> sorts by it.
\<close>

type_synonym agreement = "real \<times> nat"

record detect_state =
  least_agreements :: "agreement list"
  forwards_predictions :: "nat option list"
  backwards_predictions :: "nat option list"

text \<open>
  The state before the first iteration: no agreement yet, and \<^verbatim>\<open>[None] * padding\<close> for
  the two lists of top predictions.
\<close>

definition initial_state :: "nat \<Rightarrow> detect_state" where
  "initial_state padding =
     \<lparr>least_agreements = [],
      forwards_predictions = replicate padding None,
      backwards_predictions = replicate padding None\<rparr>"

definition py_assert :: "bool \<Rightarrow> error + unit" where
  "py_assert c = (if c then Inr () else Inl AssertionError)"

text \<open>
  One iteration of the loop of \<^verbatim>\<open>rank_and_fix\<close> over
  \<^verbatim>\<open>(index, ((prefix, token), (suffix, _)))\<close>. The two predictors are parameters (they
  reach the external models through the prediction cache). The statements follow the
  source's order; the \<^verbatim>\<open>print\<close> call is kept for the exceptions its arguments can
  raise: the harmonic-mean diagnostic and \<^verbatim>\<open>tokens[index - 1]\<close> (the index is at least
  \<^verbatim>\<open>sentence_length\<close>, so the subtraction stays non-negative). The diagnostic runs after
  the agreement has been computed, and the arrays it overwrites are not read again.
\<close>

definition loop_body ::
  "(nat list \<Rightarrow> real list) \<Rightarrow> (nat list \<Rightarrow> real list) \<Rightarrow> 'tok list \<Rightarrow> nat list \<Rightarrow>
   nat \<times> ((nat list \<times> nat) \<times> (nat list \<times> nat)) \<Rightarrow> detect_state \<Rightarrow> error + detect_state" where
  "loop_body forwards_predict backwards_predict tokens file_vector ctx st =
     (case ctx of (index, ((prefix, token), (suffix, _))) \<Rightarrow>
      bind_err (py_index file_vector index) (\<lambda>expected.
      bind_err (py_assert (token = expected)) (\<lambda>_.
      let prefix_pred = forwards_predict prefix;
          suffix_pred = backwards_predict suffix
      in
      bind_err (py_assert (isclose (sum_list prefix_pred) 1 (1 / 100) 0)) (\<lambda>_.
      bind_err (py_assert (isclose (sum_list suffix_pred) 1 (1 / 100) 0)) (\<lambda>_.
      bind_err (index_of_max prefix_pred) (\<lambda>top_next_prediction.
      let forwards_predictions' = forwards_predictions st @ [Some top_next_prediction] in
      bind_err (index_of_max suffix_pred) (\<lambda>top_prev_prediction.
      let backwards_predictions' = backwards_predictions st @ [Some top_prev_prediction] in
      bind_err (py_index forwards_predictions' index) (\<lambda>stored.
      bind_err (py_assert (Some top_next_prediction = stored)) (\<lambda>_.
      bind_err (squared_error_agreement prefix_pred suffix_pred) (\<lambda>probability.
      let agreement = (probability, index) in
      bind_err (fst (harmonic_mean_agreement prefix_pred suffix_pred)) (\<lambda>_.
      bind_err (py_index tokens (index - 1)) (\<lambda>_.
      Inr \<lparr>least_agreements = least_agreements st @ [agreement],
           forwards_predictions = forwards_predictions',
           backwards_predictions = backwards_predictions'\<rparr>))))))))))))"

fun fold_err :: "('a \<Rightarrow> 's \<Rightarrow> error + 's) \<Rightarrow> 'a list \<Rightarrow> 's \<Rightarrow> error + 's" where
  "fold_err f [] s = Inr s"
| "fold_err f (x # xs) s = bind_err (f x s) (fold_err f xs)"

definition detect_loop ::
  "(nat list \<Rightarrow> real list) \<Rightarrow> (nat list \<Rightarrow> real list) \<Rightarrow> 'tok list \<Rightarrow> nat list \<Rightarrow>
   error + detect_state" where
  "detect_loop forwards_predict backwards_predict tokens file_vector =
     (let padding = sentence_length
      in fold_err (loop_body forwards_predict backwards_predict tokens file_vector)
           (enumerate padding (contexts file_vector)) (initial_state padding))"

section \<open>Fix synthesis\<close>

datatype fix_kind = Insert | Remove | Substitute

record 'tok Fix =
  kind :: fix_kind
  location :: nat
  token :: "'tok option"

text \<open>
  Modelled from the spec: the class \<^verbatim>\<open>Fixes\<close> (imported from \<^verbatim>\<open>detect\<close>) is absent from
  the sources. A remove candidate deletes the token at the disagreement position, an
  insert candidate puts a token immediately before it; positions are file-vector indices
  and \<^verbatim>\<open>offset\<close> maps them to token indices. A candidate is applied to a copy of the token
  stream and kept when the external syntax checker (the parameter \<open>is_valid\<close>) accepts the
  outcome. The collection keeps insertion order and holds structurally equal fixes once.
  The positions that reach it are at least \<^verbatim>\<open>sentence_length\<close>, so subtracting the offset
  stays non-negative.
\<close>

definition remove_at :: "'tok list \<Rightarrow> nat \<Rightarrow> 'tok list" where
  "remove_at tokens i = take i tokens @ drop (Suc i) tokens"

definition insert_at :: "'tok list \<Rightarrow> nat \<Rightarrow> 'tok \<Rightarrow> 'tok list" where
  "insert_at tokens i t = take i tokens @ t # drop i tokens"

definition remove_fix :: "nat \<Rightarrow> 'tok Fix" where
  "remove_fix pos = \<lparr>kind = Remove, location = pos, token = None\<rparr>"

definition insert_fix :: "nat \<Rightarrow> 'tok \<Rightarrow> 'tok Fix" where
  "insert_fix pos t = \<lparr>kind = Insert, location = pos, token = Some t\<rparr>"

definition add_fix :: "'tok Fix list \<Rightarrow> 'tok Fix \<Rightarrow> 'tok Fix list" where
  "add_fix fixes f = (if f \<in> set fixes then fixes else fixes @ [f])"

definition try_remove ::
  "('tok list \<Rightarrow> bool) \<Rightarrow> 'tok list \<Rightarrow> nat \<Rightarrow> 'tok Fix list \<Rightarrow> nat \<Rightarrow> 'tok Fix list" where
  "try_remove is_valid tokens offset fixes pos =
     (if is_valid (remove_at tokens (pos - offset)) then add_fix fixes (remove_fix pos)
      else fixes)"

definition try_insert ::
  "('tok list \<Rightarrow> bool) \<Rightarrow> 'tok list \<Rightarrow> nat \<Rightarrow> 'tok Fix list \<Rightarrow> nat \<Rightarrow> 'tok \<Rightarrow> 'tok Fix list" where
  "try_insert is_valid tokens offset fixes pos t =
     (if is_valid (insert_at tokens (pos - offset) t) then add_fix fixes (insert_fix pos t)
      else fixes)"

text \<open>
  The body of the loop over \<^verbatim>\<open>least_agreements[:3]\<close>. \<^verbatim>\<open>id_to_token\<close> is absent from the
  sources and belongs to the vocabulary, an external collaborator: it is a parameter, and
  it receives whatever the list of top predictions holds at the position.
\<close>

definition fix_step ::
  "('tok list \<Rightarrow> bool) \<Rightarrow> (nat option \<Rightarrow> 'tok) \<Rightarrow> 'tok list \<Rightarrow> nat option list \<Rightarrow>
   nat option list \<Rightarrow> agreement \<Rightarrow> 'tok Fix list \<Rightarrow> error + 'tok Fix list" where
  "fix_step is_valid id_to_token tokens forwards_preds backwards_preds
       disagreement fixes =
     (let pos = snd disagreement;
          fixes1 = try_remove is_valid tokens 1 fixes pos
      in
      bind_err (py_index forwards_preds pos) (\<lambda>next_id.
      let fixes2 = try_insert is_valid tokens 1 fixes1 pos (id_to_token next_id) in
      bind_err (py_index backwards_preds pos) (\<lambda>prev_id.
      Inr (try_insert is_valid tokens 1 fixes2 pos (id_to_token prev_id)))))"

text \<open>
  \<^verbatim>\<open>rank_and_fix\<close> from the tokens and the file vector of the file (the outcomes of the
  external tokenizer and vectorizer) to the sorted agreements and the exposed fix.
\<close>

definition synthesize ::
  "('tok list \<Rightarrow> bool) \<Rightarrow> (nat option \<Rightarrow> 'tok) \<Rightarrow> 'tok list \<Rightarrow> detect_state \<Rightarrow>
   error + agreement list \<times> 'tok Fix option" where
  "synthesize is_valid id_to_token tokens st =
     (let sorted_agreements = sort (least_agreements st)
      in
      bind_err (fold_err (fix_step is_valid id_to_token tokens
                            (forwards_predictions st) (backwards_predictions st))
                  (take 3 sorted_agreements) []) (\<lambda>fixes.
      let fix = (if fixes = [] then None else Some (hd fixes))
      in Inr (sorted_agreements, fix)))"

definition rank_and_fix ::
  "(nat list \<Rightarrow> real list) \<Rightarrow> (nat list \<Rightarrow> real list) \<Rightarrow> ('tok list \<Rightarrow> bool) \<Rightarrow>
   (nat option \<Rightarrow> 'tok) \<Rightarrow> 'tok list \<Rightarrow> nat list \<Rightarrow> error + agreement list \<times> 'tok Fix option" where
  "rank_and_fix forwards_predict backwards_predict is_valid id_to_token tokens file_vector =
     bind_err (detect_loop forwards_predict backwards_predict tokens file_vector)
       (synthesize is_valid id_to_token tokens)"

section \<open>The mutation harness\<close>

text \<open>
  Modelled from the spec: the type \<^verbatim>\<open>Token\<close> (imported from \<^verbatim>\<open>corpus\<close>) is absent from
  the sources; it is the record of kind, text and 1-based line.
\<close>

record token =
  tok_kind :: string
  tok_text :: string
  line :: nat

text \<open>
  A mutation as the harness reads it: \<^verbatim>\<open>mutation.name\<close>, \<^verbatim>\<open>mutation.location\<close> and
  \<^verbatim>\<open>mutation.token\<close>.
\<close>

record mutation =
  mutation_name :: string
  mutation_location :: nat
  mutation_token :: "nat option"

text \<open>The keyword arguments of \<^verbatim>\<open>results.write\<close>, one row of the results file.\<close>

record result_row =
  fold_no :: nat
  file_hash :: string
  mkind :: string
  mtoken :: "nat option"
  mpos :: nat
  correct_line :: nat
  line_of_top_rank :: nat
  rank_correct_line :: "nat option"
  fixed :: bool
  fkind :: "fix_kind option"
  fpos :: "nat option"
  ftoken :: "token option"
  same_fix :: "unit option"

text \<open>
  The harness pads the token tuple with the strings \<^verbatim>\<open>'start'\<close> and \<^verbatim>\<open>'end'\<close>, which
  have no attribute \<^verbatim>\<open>line\<close>.
\<close>

type_synonym padded_token = "string + token"

definition line_of :: "padded_token \<Rightarrow> error + nat" where
  "line_of t = (case t of Inl sentinel \<Rightarrow> Inl AttributeError | Inr tok \<Rightarrow> Inr (line tok))"

text \<open>
  The LOAD step of the main loop: the two sentinel assertions on the stored vector, the
  padding of the token tuple and the assertion that follows it,
  \<^verbatim>\<open>assert len(tokens) == len(tokens)\<close>.
\<close>

definition load :: "nat list \<Rightarrow> token list \<Rightarrow> error + nat list \<times> padded_token list" where
  "load vector tokens =
     bind_err (py_index vector 0) (\<lambda>first.
     bind_err (py_assert (first = 0)) (\<lambda>_.
     bind_err (py_index vector (length vector - 1)) (\<lambda>final.
     bind_err (py_assert (final = 99)) (\<lambda>_.
     let tokens' = [Inl ''start''] @ map Inr tokens @ [Inl ''end''] in
     bind_err (py_assert (length tokens' = length tokens')) (\<lambda>_.
     Inr (vector, tokens'))))))"

text \<open>
  \<^verbatim>\<open>first_with_line_no\<close>: the 1-based rank of the first disagreement on the correct line;
  falling off the loop returns \<^verbatim>\<open>None\<close>.
\<close>

fun first_with_line_no_from ::
  "nat \<Rightarrow> agreement list \<Rightarrow> nat \<Rightarrow> padded_token list \<Rightarrow> error + nat option" where
  "first_with_line_no_from r [] correct tokens = Inr None"
| "first_with_line_no_from r (disagreement # rest) correct tokens =
     bind_err (py_index tokens (snd disagreement)) (\<lambda>t.
     bind_err (line_of t) (\<lambda>l.
     if l = correct then Inr (Some r) else first_with_line_no_from (Suc r) rest correct tokens))"

definition first_with_line_no ::
  "agreement list \<Rightarrow> nat \<Rightarrow> padded_token list \<Rightarrow> error + nat option" where
  "first_with_line_no disagreements correct tokens =
     first_with_line_no_from 1 disagreements correct tokens"

text \<open>
  The RECORD step: the line of the top-ranked location, the rank of the correct line and
  the row handed to \<^verbatim>\<open>results.write\<close>.
\<close>

definition record_result ::
  "nat \<Rightarrow> string \<Rightarrow> mutation \<Rightarrow> nat \<Rightarrow> padded_token list \<Rightarrow> agreement list \<Rightarrow>
   token Fix option \<Rightarrow> error + result_row" where
  "record_result fno file m correct tokens ranked_locations fx =
     bind_err (py_index ranked_locations 0) (\<lambda>top.
     bind_err (py_index tokens (snd top)) (\<lambda>t.
     bind_err (line_of t) (\<lambda>line_of_top_location.
     bind_err (first_with_line_no ranked_locations correct tokens) (\<lambda>rank_correct.
     Inr \<lparr>fold_no = fno,
          file_hash = file,
          mkind = mutation_name m,
          mtoken = mutation_token m,
          mpos = mutation_location m,
          correct_line = correct,
          line_of_top_rank = line_of_top_location,
          rank_correct_line = rank_correct,
          fixed = (fx \<noteq> None),
          fkind = (case fx of None \<Rightarrow> None | Some f \<Rightarrow> Some (kind f)),
          fpos = (case fx of None \<Rightarrow> None | Some f \<Rightarrow> Some (location f)),
          ftoken = (case fx of None \<Rightarrow> None | Some f \<Rightarrow> token f),
          same_fix = None\<rparr>))))"

text \<open>
  One trial of the main loop. The fold table, the predictors of each fold, the syntax
  checker and the vocabulary are parameters; so are the stored vector and tokens of the
  original file and the tokens and file vector of the mutated file, which the external
  mutation writer, tokenizer and vectorizer produce.
\<close>

definition trial ::
  "(string \<rightharpoonup> nat) \<Rightarrow> (nat \<Rightarrow> nat list \<Rightarrow> real list) \<Rightarrow> (nat \<Rightarrow> nat list \<Rightarrow> real list) \<Rightarrow>
   (token list \<Rightarrow> bool) \<Rightarrow> (nat option \<Rightarrow> token) \<Rightarrow> string \<Rightarrow> mutation \<Rightarrow>
   nat list \<Rightarrow> token list \<Rightarrow> token list \<Rightarrow> nat list \<Rightarrow> error + result_row" where
  "trial FOLDS forwards backwards is_valid id_to_token file m vector tokens
       mutated_tokens mutated_vector =
     bind_err (case FOLDS file of None \<Rightarrow> Inl KeyError | Some f \<Rightarrow> Inr f) (\<lambda>fno.
     bind_err (load vector tokens) (\<lambda>(vector', tokens').
     bind_err (py_index tokens' (mutation_location m)) (\<lambda>t.
     bind_err (line_of t) (\<lambda>correct.
     bind_err (rank_and_fix (forwards fno) (backwards fno) is_valid id_to_token
                 mutated_tokens mutated_vector) (\<lambda>(ranked_locations, fx).
     record_result fno file m correct tokens' ranked_locations fx)))))"

section \<open>The fix synthesizer as the specification words it\<close>

text \<open>
  The specification's account of fix synthesis, for comparison with \<open>synthesize\<close>: the
  candidates of the first three ranked positions, each position contributing remove,
  insert-forward-prediction and insert-backward-prediction in that order; a candidate
  validates when the checker accepts the token stream with the candidate applied; the
  exposed fix is the first candidate that validates.
\<close>

definition candidates_spec ::
  "(nat option \<Rightarrow> 'tok) \<Rightarrow> nat option list \<Rightarrow> nat option list \<Rightarrow> agreement list \<Rightarrow> 'tok Fix list" where
  "candidates_spec id_to_token forwards_preds backwards_preds ranked =
     concat (map (\<lambda>d. [remove_fix (snd d),
                        insert_fix (snd d) (id_to_token (forwards_preds ! snd d)),
                        insert_fix (snd d) (id_to_token (backwards_preds ! snd d))])
               (take 3 ranked))"

definition validates_spec :: "('tok list \<Rightarrow> bool) \<Rightarrow> 'tok list \<Rightarrow> 'tok Fix \<Rightarrow> bool" where
  "validates_spec is_valid tokens f =
     (case kind f of
        Remove \<Rightarrow> is_valid (remove_at tokens (location f - 1))
      | Insert \<Rightarrow> (case token f of
                    Some t \<Rightarrow> is_valid (insert_at tokens (location f - 1) t)
                  | None \<Rightarrow> False)
      | Substitute \<Rightarrow> False)"

definition exposed_fix_spec ::
  "('tok list \<Rightarrow> bool) \<Rightarrow> (nat option \<Rightarrow> 'tok) \<Rightarrow> 'tok list \<Rightarrow> nat option list \<Rightarrow>
   nat option list \<Rightarrow> agreement list \<Rightarrow> 'tok Fix option" where
  "exposed_fix_spec is_valid id_to_token tokens forwards_preds backwards_preds ranked =
     find (validates_spec is_valid tokens)
       (candidates_spec id_to_token forwards_preds backwards_preds ranked)"

section \<open>A sample file\<close>

text \<open>
  A file of forty tokens, one per line, with its file vector of forty-two ids; two
  positions, 20 and 21, have a full window on both sides. The sample predictors disagree
  completely at position 21 (\<^verbatim>\<open>[1,0,0]\<close> against \<^verbatim>\<open>[0,1,0]\<close>) and agree at position 20
  (\<^verbatim>\<open>[0.5,0.5,0]\<close> twice). The theorems below are instantiated at this file.
\<close>

definition sample_vector :: "nat list" where
  "sample_vector = 0 # [1..<41] @ [99]"

definition sample_tokens :: "token list" where
  "sample_tokens =
     map (\<lambda>i. \<lparr>tok_kind = ''Punctuator'', tok_text = '';'', line = i\<rparr>) [1..<41]"

definition sample_forwards :: "nat list \<Rightarrow> real list" where
  "sample_forwards prefix = (if hd prefix = 1 then [1, 0, 0] else [1/2, 1/2, 0])"

definition sample_backwards :: "nat list \<Rightarrow> real list" where
  "sample_backwards suffix = (if hd suffix = 22 then [0, 1, 0] else [1/2, 1/2, 0])"

definition sample_id_to_token :: "nat option \<Rightarrow> token" where
  "sample_id_to_token i =
     (case i of
        None \<Rightarrow> \<lparr>tok_kind = ''Unknown'', tok_text = ''?'', line = 0\<rparr>
      | Some n \<Rightarrow> \<lparr>tok_kind = ''Identifier'', tok_text = replicate (Suc n) CHR ''x'', line = 0\<rparr>)"

definition sample_mutation :: mutation where
  "sample_mutation =
     \<lparr>mutation_name = ''substitute'', mutation_location = 21, mutation_token = Some 21\<rparr>"

section \<open>Properties of the agreement metrics\<close>

lemma isclose_zero: "isclose x 0 default_rel_tol 0 \<longleftrightarrow> x = 0"
proof -
  have "\<bar>x\<bar> \<le> \<bar>default_rel_tol * x\<bar> \<longleftrightarrow> x = 0"
  proof
    assume a: "\<bar>x\<bar> \<le> \<bar>default_rel_tol * x\<bar>"
    have "\<bar>default_rel_tol * x\<bar> = default_rel_tol * \<bar>x\<bar>"
      by (simp add: default_rel_tol_def abs_mult)
    with a have "\<bar>x\<bar> \<le> \<bar>x\<bar> / 10 ^ 9" by (simp add: default_rel_tol_def)
    then show "x = 0" by (simp add: field_simps)
  qed simp
  then show ?thesis by (auto simp: isclose_def)
qed

lemma fix_zeros_prefix:
  "k \<le> length preds \<Longrightarrow>
   fold (fix_zeros_step epsilon) [0..<k] preds
     = map (\<lambda>x. if x = 0 then epsilon else x) (take k preds) @ drop k preds"
proof (induction k)
  case 0
  then show ?case by simp
next
  case (Suc k)
  then have k: "k < length preds" by simp
  have "fold (fix_zeros_step epsilon) [0..<Suc k] preds
      = fix_zeros_step epsilon k
          (map (\<lambda>x. if x = 0 then epsilon else x) (take k preds) @ drop k preds)"
    using Suc by simp
  also have "\<dots> = map (\<lambda>x. if x = 0 then epsilon else x) (take (Suc k) preds)
                   @ drop (Suc k) preds"
    using k
    by (simp add: fix_zeros_step_def isclose_zero nth_append list_update_append
        take_Suc_conv_app_nth Cons_nth_drop_Suc [symmetric])
  finally show ?case .
qed

lemma fix_zeros_map: "fix_zeros preds epsilon = map (\<lambda>x. if x = 0 then epsilon else x) preds"
  by (simp add: fix_zeros_def fix_zeros_prefix)

subsection \<open>Ranking\<close>

lemma sorted_wrt_conj:
  "sorted_wrt P l \<Longrightarrow> sorted_wrt Q l \<Longrightarrow> sorted_wrt (\<lambda>a b. P a b \<and> Q a b) l"
  by (induction l) auto

lemma sorted_wrt_within_keys:
  "(\<And>k. sorted_wrt R (filter (\<lambda>y. f y = k) l)) \<Longrightarrow> sorted_wrt (\<lambda>a b. f a = f b \<longrightarrow> R a b) l"
proof (induction l)
  case Nil
  then show ?case by simp
next
  case (Cons a l)
  have rest: "sorted_wrt R (filter (\<lambda>y. f y = k) l)" for k
    using Cons.prems [of k] by (cases "f a = k") auto
  have first: "\<forall>b\<in>set l. f a = f b \<longrightarrow> R a b"
    using Cons.prems [of "f a"] by auto
  from Cons.IH [OF rest] first show ?case by simp
qed

lemma enumerate_ids_increasing: "sorted_wrt (\<lambda>a b. fst a < fst b) (enumerate n ps)"
proof -
  have "sorted_wrt (<) (map fst (enumerate n ps))" by simp
  then show ?thesis by (simp only: sorted_wrt_map)
qed

lemma rank_filter_key:
  "filter (\<lambda>y. snd y = k) (rank ps) = filter (\<lambda>y. snd y = k) (enumerate 0 ps)"
proof -
  have "filter (\<lambda>y. snd y = k) (rank ps)
      = rev (filter (\<lambda>y. snd y = k) (sort_key snd (rev (enumerate 0 ps))))"
    by (simp add: rank_def rev_filter)
  also have "\<dots> = rev (filter (\<lambda>y. snd y = k) (rev (enumerate 0 ps)))"
    by (simp only: sort_key_stable)
  finally show ?thesis by (simp add: rev_filter)
qed

lemma rank_descending: "sorted_wrt (\<lambda>a b. snd b \<le> snd a) (rank ps)"
proof -
  have "sorted (map snd (sort_key snd (rev (enumerate 0 ps))))" by simp
  then have "sorted_wrt (\<lambda>a b. snd a \<le> snd b) (sort_key snd (rev (enumerate 0 ps)))"
    by (simp only: sorted_wrt_map)
  then show ?thesis by (simp add: rank_def sorted_wrt_rev)
qed

lemma rank_ties: "sorted_wrt (\<lambda>a b. snd a = snd b \<longrightarrow> fst a < fst b) (rank ps)"
proof (rule sorted_wrt_within_keys)
  fix k
  show "sorted_wrt (\<lambda>a b. fst a < fst b) (filter (\<lambda>y. snd y = k) (rank ps))"
    by (simp only: rank_filter_key sorted_wrt_filter enumerate_ids_increasing)
qed

lemma rank_mset: "mset (rank ps) = mset (enumerate 0 ps)"
  by (simp add: rank_def)

text \<open>
  C3. \<^verbatim>\<open>rank(predictions)\<close> returns the (id, probability) pairs of the vector, each once,
  ordered by probability descending with ties broken by id ascending; for
  \<^verbatim>\<open>[0.1, 0.5, 0.4]\<close> it returns \<^verbatim>\<open>[(1,0.5),(2,0.4),(0,0.1)]\<close>.
\<close>

theorem rank_order:
  "mset (rank ps) = mset (enumerate 0 ps)
   \<and> sorted_wrt (\<lambda>(i, p) (j, q). q < p \<or> (p = q \<and> i < j)) (rank ps)
   \<and> rank [1/10, 1/2, 4/10] = [(1, 1/2), (2, 4/10), (0, 1/10)]"
proof -
  have "sorted_wrt (\<lambda>a b. snd b \<le> snd a \<and> (snd a = snd b \<longrightarrow> fst a < fst b)) (rank ps)"
    by (rule sorted_wrt_conj [OF rank_descending rank_ties])
  then have "sorted_wrt (\<lambda>(i, p) (j, q). q < p \<or> (p = q \<and> i < j)) (rank ps)"
    by (rule sorted_wrt_mono_rel [rotated]) auto
  moreover have "rank [1/10, 1/2, 4/10] = [(1, 1/2), (2, 4/10), (0, 1/10)]"
    by (simp add: rank_def enumerate_eq_zip upt_rec)
  ultimately show ?thesis by (simp add: rank_mset)
qed

subsection \<open>Squared-error agreement\<close>






lemma squared_error_agreement_formula:
  "length a = length b \<Longrightarrow>
   squared_error_agreement a b = Inr (- (\<Sum>i<length a. (a ! i - b ! i) ^ 2))"
proof -
  assume len: "length a = length b"
  have "sum_list (map (\<lambda>d. d ^ 2) (map2 (-) a b))
      = (\<Sum>i = 0..<length a. (map (\<lambda>d. d ^ 2) (map2 (-) a b)) ! i)"
    using len by (simp add: sum_list_sum_nth)
  also have "\<dots> = (\<Sum>i = 0..<length a. (a ! i - b ! i) ^ 2)"
    using len by (intro sum.cong) auto
  finally show ?thesis
    using len by (simp add: squared_error_agreement_def np_binop_def lessThan_atLeast0)
qed




subsection \<open>The harmonic-mean diagnostic\<close>

lemma float_epsilon_pos: "0 < float_epsilon"
  by (simp add: float_epsilon_def)

lemma fix_zeros_positive:
  "\<forall>x\<in>set preds. 0 \<le> x \<Longrightarrow> \<forall>x\<in>set (fix_zeros preds float_epsilon). 0 < x"
  using float_epsilon_pos by (auto simp: fix_zeros_map)

lemma fix_zeros_unchanged: "fix_zeros preds float_epsilon = preds \<longleftrightarrow> 0 \<notin> set preds"
proof -
  have "map (\<lambda>x. if x = 0 then float_epsilon else x) preds = preds \<longleftrightarrow> 0 \<notin> set preds"
    using float_epsilon_pos by (induction preds) auto
  then show ?thesis by (simp add: fix_zeros_map)
qed

lemma np_binop_positive:
  assumes "\<forall>x\<in>set a. 0 < x" "\<forall>x\<in>set b. 0 < x"
    and f: "\<And>x y. 0 < x \<Longrightarrow> 0 < y \<Longrightarrow> 0 < f x y"
    and "np_binop f a b = Inr cs"
  shows "\<forall>c\<in>set cs. 0 < c"
proof -
  have hd_a: "length a = 1 \<Longrightarrow> 0 < hd a" using assms(1) by (cases a) auto
  have hd_b: "length b = 1 \<Longrightarrow> 0 < hd b" using assms(2) by (cases b) auto
  have zipped: "\<forall>c\<in>set (map2 f a b). 0 < c"
    using assms(1,2) f by (auto elim!: in_set_zipE)
  show ?thesis
    using assms(1,2,4) f hd_a hd_b zipped
    by (auto simp: np_binop_def split: if_splits)
qed

lemma hm_entry_positive: "0 < x \<Longrightarrow> 0 < y \<Longrightarrow> 0 < hm_entry x y"
  by (simp add: hm_entry_def)

lemma no_division_by_zero:
  assumes "\<forall>x\<in>set a. 0 < x" "\<forall>x\<in>set b. 0 < x"
  shows "\<not> divides_by_zero a b"
proof (cases "np_binop (+) a b")
  case (Inl e)
  then show ?thesis by (simp add: divides_by_zero_def)
next
  case (Inr ds)
  have "\<forall>d\<in>set ds. 0 < d"
    by (rule np_binop_positive [OF assms _ Inr]) simp
  then show ?thesis using Inr by (auto simp: divides_by_zero_def list_ex_iff)
qed

lemma rank_length: "length (rank ps) = length ps"
  by (simp add: rank_def)

lemma rank_Nil: "rank ps = [] \<longleftrightarrow> ps = []"
  using rank_length [of ps] by (metis length_0_conv)

lemma rank_snd_set: "snd ` set (rank ps) = set ps"
proof -
  have "set (rank ps) = set (enumerate 0 ps)" by (simp add: rank_def)
  then have "snd ` set (rank ps) = set (map snd (enumerate 0 ps))" by (simp only: set_map)
  then show ?thesis by (simp only: map_snd_enumerate)
qed

lemma rank_head_maximum:
  assumes "rank ps = (i, p) # rest"
  shows "p \<in> set ps" "\<forall>x\<in>set ps. x \<le> p"
proof -
  have "p \<in> snd ` set (rank ps)" using assms by force
  then show "p \<in> set ps" by (simp only: rank_snd_set)
  have "\<forall>e\<in>set rest. snd e \<le> p"
    using rank_descending [of ps] assms by simp
  then have "\<forall>x\<in>snd ` set (rank ps). x \<le> p" using assms by auto
  then show "\<forall>x\<in>set ps. x \<le> p" by (simp only: rank_snd_set)
qed

lemma harmonic_mean_agreement_maximum:
  assumes "harmonic_mean (fix_zeros a float_epsilon) (fix_zeros b float_epsilon) = Inr mean"
    and "mean \<noteq> []"
  shows "fst (harmonic_mean_agreement a b) = Inr (Max (set mean))"
proof -
  obtain i p rest where r: "rank mean = (i, p) # rest"
    using assms(2) rank_Nil [of mean] by (cases "rank mean") auto
  have "Max (set mean) = p"
    using rank_head_maximum [OF r] by (intro Max_eqI) auto
  then show ?thesis
    using assms(1) r by (simp add: harmonic_mean_agreement_def Let_def)
qed

lemma harmonic_mean_agreement_positive:
  assumes "\<forall>x\<in>set a. 0 \<le> x" "\<forall>x\<in>set b. 0 \<le> x"
    and "length a = length b" "a \<noteq> []"
  shows "\<exists>r. fst (harmonic_mean_agreement a b) = Inr r \<and> 0 < r"
proof -
  let ?a = "fix_zeros a float_epsilon" and ?b = "fix_zeros b float_epsilon"
  have len: "length ?a = length ?b" "?a \<noteq> []"
    using assms(3,4) by (simp_all add: fix_zeros_map)
  define mean where "mean = map2 hm_entry ?a ?b"
  have "length mean = length ?a" using len(1) by (simp add: mean_def)
  with len(2) have "mean \<noteq> []" by auto
  moreover have "harmonic_mean ?a ?b = Inr mean"
    using len(1) by (simp add: harmonic_mean_def np_binop_def mean_def)
  ultimately have m: "harmonic_mean ?a ?b = Inr mean" "mean \<noteq> []" by simp_all
  have nb: "np_binop hm_entry ?a ?b = Inr mean"
    using m(1) by (simp add: harmonic_mean_def)
  have pos: "\<forall>c\<in>set mean. 0 < c"
    by (rule np_binop_positive [OF fix_zeros_positive [OF assms(1)]
          fix_zeros_positive [OF assms(2)] hm_entry_positive nb])
  have "Max (set mean) \<in> set mean" using m(2) by simp
  with pos have "0 < Max (set mean)" by blast
  with harmonic_mean_agreement_maximum [OF m] show ?thesis by simp
qed

text \<open>
  C2 (the code returns the other end of the ranking). The comments of
  \<^verbatim>\<open>harmonic_mean_agreement\<close> announce the value with the minimum probability, and the
  variable is named \<^verbatim>\<open>min_prob\<close>; \<^verbatim>\<open>rank\<close> sorts in descending order, so the first pair
  holds the maximum (\<open>harmonic_mean_agreement_maximum\<close>). For the vectors
  \<^verbatim>\<open>[0.2, 0.8]\<close> and \<^verbatim>\<open>[0.2, 0.8]\<close> the harmonic mean is \<^verbatim>\<open>[0.2, 0.8]\<close>, its minimum is
  \<^verbatim>\<open>0.2\<close> and the diagnostic returns \<^verbatim>\<open>0.8\<close>.
\<close>

theorem harmonic_mean_agreement_returns_maximum:
  "harmonic_mean [1/5, 4/5] [1/5, 4/5] = Inr [1/5, 4/5]
   \<and> Min (set [1/5, 4/5 :: real]) = 1/5
   \<and> fst (harmonic_mean_agreement [1/5, 4/5] [1/5, 4/5]) = Inr (4/5)"
  by (simp add: harmonic_mean_agreement_def fix_zeros_map harmonic_mean_def np_binop_def
      hm_entry_def rank_def enumerate_eq_zip upt_rec Let_def)

text \<open>
  C7 (as stated, refuted). The harmonic-mean diagnostic writes to both prediction
  vectors: after the call on \<^verbatim>\<open>[1,0,0]\<close> and \<^verbatim>\<open>[0,1,0]\<close> the zero entries hold epsilon.
\<close>

theorem prediction_overwritten_counterexample:
  "fst (snd (harmonic_mean_agreement [1, 0, 0] [0, 1, 0])) \<noteq> [1, 0, 0]
   \<and> snd (snd (harmonic_mean_agreement [1, 0, 0] [0, 1, 0])) \<noteq> [0, 1, 0]"
  by (simp add: harmonic_mean_agreement_def fix_zeros_map Let_def float_epsilon_def)

text \<open>
  C7 (amended). Agreement scoring and top-prediction extraction compute from the entries
  and write to no vector (\<open>squared_error_agreement\<close> and \<open>index_of_max\<close> return values
  only). The harmonic-mean diagnostic overwrites, in both vectors, exactly the entries
  that are zero, with epsilon: the lengths stay, every other entry is as before, and a
  vector is the same after the call exactly when it has no zero entry.
\<close>

theorem harmonic_mean_agreement_frame:
  "case harmonic_mean_agreement prefix_pred suffix_pred of
     (result, prefix_pred', suffix_pred') \<Rightarrow>
       length prefix_pred' = length prefix_pred
     \<and> length suffix_pred' = length suffix_pred
     \<and> (\<forall>i<length prefix_pred.
           prefix_pred' ! i = (if prefix_pred ! i = 0 then float_epsilon else prefix_pred ! i))
     \<and> (\<forall>i<length suffix_pred.
           suffix_pred' ! i = (if suffix_pred ! i = 0 then float_epsilon else suffix_pred ! i))
     \<and> (prefix_pred' = prefix_pred \<longleftrightarrow> 0 \<notin> set prefix_pred)
     \<and> (suffix_pred' = suffix_pred \<longleftrightarrow> 0 \<notin> set suffix_pred)"
  using fix_zeros_unchanged [of prefix_pred] fix_zeros_unchanged [of suffix_pred]
  by (simp add: harmonic_mean_agreement_def Let_def fix_zeros_map)

theorem harmonic_mean_agreement_frame_witness:
  "snd (harmonic_mean_agreement [1/5, 4/5] [1, 0]) = ([1/5, 4/5], [1, float_epsilon])"
  using harmonic_mean_agreement_frame [of "[1/5, 4/5]" "[1, 0]"]
  by (simp add: harmonic_mean_agreement_def Let_def fix_zeros_map)

text \<open>
  C8. For two prediction vectors (non-negative entries), the diagnostic replaces each
  zero entry by epsilon, which is positive, before the harmonic mean is taken: the mean is
  computed from the two replaced vectors, whose entries are all positive, so no entry of
  the mean divides by zero (the one way an exact computation yields NaN or an infinity);
  for vectors of one non-zero length the diagnostic returns a positive real.
\<close>

theorem harmonic_mean_agreement_epsilon:
  assumes "\<forall>x\<in>set prefix_pred. 0 \<le> x" and "\<forall>x\<in>set suffix_pred. 0 \<le> x"
  shows "case harmonic_mean_agreement prefix_pred suffix_pred of
     (result, prefix_pred', suffix_pred') \<Rightarrow>
       prefix_pred' = map (\<lambda>x. if x = 0 then float_epsilon else x) prefix_pred
     \<and> suffix_pred' = map (\<lambda>x. if x = 0 then float_epsilon else x) suffix_pred
     \<and> (\<forall>x\<in>set prefix_pred'. 0 < x) \<and> (\<forall>x\<in>set suffix_pred'. 0 < x)
     \<and> result = bind_err (harmonic_mean prefix_pred' suffix_pred') (\<lambda>mean.
                  case rank mean of [] \<Rightarrow> Inl IndexError | (_, min_prob) # _ \<Rightarrow> Inr min_prob)
     \<and> \<not> divides_by_zero prefix_pred' suffix_pred'
     \<and> (length prefix_pred = length suffix_pred \<and> prefix_pred \<noteq> []
          \<longrightarrow> (\<exists>r. result = Inr r \<and> 0 < r))"
proof -
  let ?a = "fix_zeros prefix_pred float_epsilon" and ?b = "fix_zeros suffix_pred float_epsilon"
  have pos: "\<forall>x\<in>set ?a. 0 < x" "\<forall>x\<in>set ?b. 0 < x"
    by (rule fix_zeros_positive [OF assms(1)], rule fix_zeros_positive [OF assms(2)])
  have safe: "\<not> divides_by_zero ?a ?b"
    by (rule no_division_by_zero [OF pos])
  have res: "length prefix_pred = length suffix_pred \<and> prefix_pred \<noteq> []
      \<longrightarrow> (\<exists>r. fst (harmonic_mean_agreement prefix_pred suffix_pred) = Inr r \<and> 0 < r)"
    using harmonic_mean_agreement_positive [OF assms] by blast
  have shape: "harmonic_mean_agreement prefix_pred suffix_pred
      = (bind_err (harmonic_mean ?a ?b) (\<lambda>mean.
           case rank mean of [] \<Rightarrow> Inl IndexError | (_, min_prob) # _ \<Rightarrow> Inr min_prob), ?a, ?b)"
    by (simp add: harmonic_mean_agreement_def Let_def)
  have maps: "?a = map (\<lambda>x. if x = 0 then float_epsilon else x) prefix_pred"
    "?b = map (\<lambda>x. if x = 0 then float_epsilon else x) suffix_pred"
    by (simp_all only: fix_zeros_map)
  show ?thesis
    unfolding shape prod.case using pos safe res maps unfolding shape fst_conv by blast
qed

theorem harmonic_mean_agreement_epsilon_witness:
  "harmonic_mean_agreement [1, 0, 0] [0, 1, 0]
     = (Inr (2 * float_epsilon / (1 + float_epsilon)),
        [1, float_epsilon, float_epsilon], [float_epsilon, 1, float_epsilon])
   \<and> 0 < float_epsilon
   \<and> divides_by_zero [1, 0, 0] [0, 1, 0]
   \<and> \<not> divides_by_zero [1, float_epsilon, float_epsilon] [float_epsilon, 1, float_epsilon]"
proof -
  have nonneg: "\<forall>x\<in>set [1, 0, 0 :: real]. 0 \<le> x" "\<forall>x\<in>set [0, 1, 0 :: real]. 0 \<le> x"
    by simp_all
  have run: "harmonic_mean_agreement [1, 0, 0] [0, 1, 0]
     = (Inr (2 * float_epsilon / (1 + float_epsilon)),
        [1, float_epsilon, float_epsilon], [float_epsilon, 1, float_epsilon])"
    by (simp add: harmonic_mean_agreement_def fix_zeros_map harmonic_mean_def np_binop_def
        hm_entry_def rank_def enumerate_eq_zip upt_rec Let_def float_epsilon_def)
  have unfixed: "divides_by_zero [1, 0, 0] [0, 1, 0]"
    by (simp add: divides_by_zero_def np_binop_def)
  from harmonic_mean_agreement_epsilon [OF nonneg] run unfixed float_epsilon_pos
  show ?thesis by simp
qed

section \<open>Properties of the detection loop\<close>

lemma bind_err_Inr_iff: "bind_err m f = Inr y \<longleftrightarrow> (\<exists>x. m = Inr x \<and> f x = Inr y)"
  by (cases m) auto

lemma py_assert_Inr_iff: "py_assert c = Inr u \<longleftrightarrow> c"
  by (simp add: py_assert_def)

lemma py_index_Inr_iff: "py_index xs i = Inr x \<longleftrightarrow> i < length xs \<and> x = xs ! i"
  by (auto simp: py_index_def)

lemma loop_body_Inr:
  assumes "loop_body fp bp tokens fv (index, ((prefix, tok), (suffix, btok))) st = Inr st'"
  shows "index < length fv" "tok = fv ! index"
    "\<exists>r. squared_error_agreement (fp prefix) (bp suffix) = Inr r
        \<and> least_agreements st' = least_agreements st @ [(r, index)]"
    "\<exists>i. forwards_predictions st' = forwards_predictions st @ [Some i]"
    "\<exists>j. backwards_predictions st' = backwards_predictions st @ [Some j]"
    "index - 1 < length tokens"
  using assms
  by (auto simp: loop_body_def Let_def bind_err_Inr_iff py_assert_Inr_iff py_index_Inr_iff)

lemma detect_fold_agreements:
  "fold_err (loop_body fp bp tokens fv) ctxs st = Inr st' \<Longrightarrow>
   \<exists>rs. least_agreements st' = least_agreements st @ rs
      \<and> map snd rs = map fst ctxs
      \<and> list_all2 (\<lambda>ctx a. squared_error_agreement (fp (fst (fst (snd ctx))))
                              (bp (fst (snd (snd ctx)))) = Inr (fst a)) ctxs rs
      \<and> length (forwards_predictions st') = length (forwards_predictions st) + length ctxs
      \<and> length (backwards_predictions st') = length (backwards_predictions st) + length ctxs"
proof (induction ctxs arbitrary: st)
  case Nil
  then show ?case by simp
next
  case (Cons ctx ctxs)
  obtain index prefix tok suffix btok where ctx: "ctx = (index, ((prefix, tok), (suffix, btok)))"
    by (metis prod.collapse)
  from Cons.prems obtain t where
    step: "loop_body fp bp tokens fv ctx st = Inr t" and
    rest: "fold_err (loop_body fp bp tokens fv) ctxs t = Inr st'"
    by (auto simp: bind_err_Inr_iff)
  from loop_body_Inr(3-5) [OF step [unfolded ctx]] obtain r i j where
    r: "squared_error_agreement (fp prefix) (bp suffix) = Inr r"
       "least_agreements t = least_agreements st @ [(r, index)]"
       "forwards_predictions t = forwards_predictions st @ [Some i]"
       "backwards_predictions t = backwards_predictions st @ [Some j]"
    by blast
  from Cons.IH [OF rest] obtain rs where
    rs: "least_agreements st' = least_agreements t @ rs"
        "map snd rs = map fst ctxs"
        "list_all2 (\<lambda>ctx a. squared_error_agreement (fp (fst (fst (snd ctx))))
                              (bp (fst (snd (snd ctx)))) = Inr (fst a)) ctxs rs"
        "length (forwards_predictions st') = length (forwards_predictions t) + length ctxs"
        "length (backwards_predictions st') = length (backwards_predictions t) + length ctxs"
    by blast
  show ?case
    using r rs by (intro exI [of _ "(r, index) # rs"]) (simp add: ctx)
qed

lemma detect_loop_agreements:
  assumes "detect_loop fp bp tokens fv = Inr st"
  shows "map snd (least_agreements st) = [sentence_length..<sentence_length + length (contexts fv)]"
    and "list_all2 (\<lambda>ctx a. squared_error_agreement (fp (fst (fst ctx))) (bp (fst (snd ctx)))
                       = Inr (fst a)) (contexts fv) (least_agreements st)"
    and "length (forwards_predictions st) = sentence_length + length (contexts fv)"
    and "length (backwards_predictions st) = sentence_length + length (contexts fv)"
proof -
  from detect_fold_agreements [OF assms [unfolded detect_loop_def Let_def]]
  obtain rs where
    rs: "least_agreements st = rs"
        "map snd rs = map fst (enumerate sentence_length (contexts fv))"
        "list_all2 (\<lambda>ctx a. squared_error_agreement (fp (fst (fst (snd ctx))))
                              (bp (fst (snd (snd ctx)))) = Inr (fst a))
           (enumerate sentence_length (contexts fv)) rs"
        "length (forwards_predictions st) = sentence_length + length (contexts fv)"
        "length (backwards_predictions st) = sentence_length + length (contexts fv)"
    by (auto simp: initial_state_def)
  show "map snd (least_agreements st) = [sentence_length..<sentence_length + length (contexts fv)]"
    using rs(1,2) by simp
  show "length (forwards_predictions st) = sentence_length + length (contexts fv)"
    "length (backwards_predictions st) = sentence_length + length (contexts fv)"
    using rs(4,5) by simp_all
  have "list_all2 (\<lambda>ctx a. squared_error_agreement (fp (fst (fst ctx))) (bp (fst (snd ctx)))
                       = Inr (fst a)) (map snd (enumerate sentence_length (contexts fv))) rs"
    using rs(3) unfolding list_all2_map1 .
  then show "list_all2 (\<lambda>ctx a. squared_error_agreement (fp (fst (fst ctx))) (bp (fst (snd ctx)))
                       = Inr (fst a)) (contexts fv) (least_agreements st)"
    using rs(1) by (simp only: map_snd_enumerate)
qed

subsection \<open>Alignment of the context windows\<close>

lemma contexts_length: "length (contexts fv) = length fv - 2 * sentence_length"
  by (simp add: contexts_def Sentences_def chop_prefix_def Let_def)

lemma contexts_nth:
  assumes "j < length (contexts fv)"
  shows "contexts fv ! j
       = ((take sentence_length (drop j fv), fv ! (j + sentence_length)),
          (take sentence_length (drop (Suc (j + sentence_length)) fv), fv ! (j + sentence_length)))"
proof -
  have j: "j + sentence_length < length fv - sentence_length"
    using assms by (simp add: contexts_length)
  then show ?thesis
    using assms
    by (simp add: contexts_def Sentences_def chop_prefix_def Let_def forward_sentence_def
        backward_sentence_def add.commute)
qed

lemma enumerate_contexts_aligned:
  assumes "(k, ((prefix, tok), (suffix, btok))) \<in> set (enumerate sentence_length (contexts fv))"
  shows "k < length fv \<and> tok = fv ! k \<and> btok = fv ! k"
proof -
  from assms have k: "sentence_length \<le> k" "k - sentence_length < length (contexts fv)"
    and ctx: "contexts fv ! (k - sentence_length) = ((prefix, tok), (suffix, btok))"
    by (auto simp: in_set_enumerate_eq)
  from k have "k < length fv" by (simp add: contexts_length)
  with contexts_nth [OF k(2)] ctx k(1) show ?thesis by simp
qed

lemma detect_loop_indices:
  assumes "detect_loop fp bp tokens fv = Inr st"
  shows "snd ` set (least_agreements st) = fst ` set (enumerate sentence_length (contexts fv))"
proof -
  have "set (map snd (least_agreements st)) = set (map fst (enumerate sentence_length (contexts fv)))"
    by (simp only: detect_loop_agreements(1) [OF assms] map_fst_enumerate)
  then show ?thesis by (simp only: set_map)
qed

subsection \<open>The sample file\<close>

lemma sample_contexts:
  "enumerate sentence_length (contexts sample_vector)
     = [(20, ([0..<20], 20), ([21..<41], 20)), (21, ([1..<21], 21), ([22..<41] @ [99], 21))]"
  by code_simp

lemma sample_detect:
  "detect_loop sample_forwards sample_backwards sample_tokens sample_vector
     = Inr \<lparr>least_agreements = [(0, 20), (- 2, 21)],
            forwards_predictions = replicate 20 None @ [Some 0, Some 0],
            backwards_predictions = replicate 20 None @ [Some 0, Some 1]\<rparr>"
  by code_simp

lemma sample_rank_and_fix:
  "rank_and_fix sample_forwards sample_backwards (\<lambda>ts. length ts = 41) sample_id_to_token
       sample_tokens sample_vector
     = Inr ([(- 2, 21), (0, 20)],
            Some \<lparr>kind = Insert, location = 21,
                  token = Some \<lparr>tok_kind = ''Identifier'', tok_text = ''x'', line = 0\<rparr>\<rparr>)"
  by code_simp

text \<open>
  C6. Every pair the detection loop receives, numbered from \<^verbatim>\<open>sentence_length\<close>, holds a
  forward window and a backward window with the same target, the entry of the file vector
  at that number; and the positions a completed loop has scored are exactly those numbers.
\<close>

theorem contexts_aligned:
  "(\<forall>(k, ((prefix, tok), (suffix, btok))) \<in> set (enumerate sentence_length (contexts fv)).
       k < length fv \<and> tok = fv ! k \<and> btok = fv ! k)
   \<and> (detect_loop fp bp tokens fv = Inr st \<longrightarrow>
        snd ` set (least_agreements st) = fst ` set (enumerate sentence_length (contexts fv)))"
proof (rule conjI)
  show "\<forall>(k, ((prefix, tok), (suffix, btok))) \<in> set (enumerate sentence_length (contexts fv)).
          k < length fv \<and> tok = fv ! k \<and> btok = fv ! k"
    by (auto dest: enumerate_contexts_aligned)
  show "detect_loop fp bp tokens fv = Inr st \<longrightarrow>
          snd ` set (least_agreements st) = fst ` set (enumerate sentence_length (contexts fv))"
    by (rule impI) (rule detect_loop_indices)
qed

theorem contexts_aligned_witness:
  "(21, ([1..<21], 21), ([22..<41] @ [99], 21))
     \<in> set (enumerate sentence_length (contexts sample_vector))
   \<and> 21 < length sample_vector \<and> sample_vector ! 21 = 21
   \<and> fst ` set (enumerate sentence_length (contexts sample_vector)) = {20, 21}"
proof -
  let ?st = "\<lparr>least_agreements = [(0, 20), (- 2, 21)],
            forwards_predictions = replicate 20 None @ [Some 0, Some 0],
            backwards_predictions = replicate 20 None @ [Some 0, Some 1]\<rparr>"
  note aligned = contexts_aligned [of sample_vector sample_forwards sample_backwards
      sample_tokens ?st]
  have mem: "(21, ([1..<21], 21), ([22..<41] @ [99], 21))
     \<in> set (enumerate sentence_length (contexts sample_vector))"
    by (simp add: sample_contexts)
  from aligned mem have "21 < length sample_vector \<and> sample_vector ! 21 = 21"
    by fastforce
  moreover from aligned sample_detect
  have "snd ` set (least_agreements ?st)
      = fst ` set (enumerate sentence_length (contexts sample_vector))"
    by blast
  then have "fst ` set (enumerate sentence_length (contexts sample_vector)) = {20, 21}"
    by auto
  ultimately show ?thesis using mem by blast
qed

section \<open>Properties of fix synthesis\<close>

lemma fold_err_pure:
  "(\<And>x s. x \<in> set xs \<Longrightarrow> f x s = Inr (g x s)) \<Longrightarrow> fold_err f xs s = Inr (fold g xs s)"
  by (induction xs arbitrary: s) simp_all

lemma fix_step_pure:
  assumes "snd d < length fwd" "snd d < length bwd"
  shows "fix_step is_valid id_to_token tokens fwd bwd d fixes
       = Inr (fold (\<lambda>c fixes. if validates_spec is_valid tokens c then add_fix fixes c else fixes)
                [remove_fix (snd d),
                 insert_fix (snd d) (id_to_token (fwd ! snd d)),
                 insert_fix (snd d) (id_to_token (bwd ! snd d))] fixes)"
  using assms
  by (simp add: fix_step_def Let_def py_index_def try_remove_def try_insert_def
      validates_spec_def remove_fix_def insert_fix_def)

lemma fold_try_keeps_head:
  "acc \<noteq> [] \<Longrightarrow>
   fold (\<lambda>c fixes. if v c then add_fix fixes c else fixes) cs acc \<noteq> []
   \<and> hd (fold (\<lambda>c fixes. if v c then add_fix fixes c else fixes) cs acc) = hd acc"
proof (induction cs arbitrary: acc)
  case Nil
  then show ?case by simp
next
  case (Cons c cs)
  have "add_fix acc c \<noteq> [] \<and> hd (add_fix acc c) = hd acc"
    using Cons.prems by (simp add: add_fix_def)
  with Cons.IH [of "add_fix acc c"] Cons.IH [OF Cons.prems] show ?case by simp
qed

lemma fold_try_first:
  "(let fixes = fold (\<lambda>c fixes. if v c then add_fix fixes c else fixes) cs []
    in if fixes = [] then None else Some (hd fixes)) = find v cs"
proof (induction cs)
  case Nil
  then show ?case by simp
next
  case (Cons c cs)
  show ?case
  proof (cases "v c")
    case True
    have "add_fix [] c = [c]" by (simp add: add_fix_def)
    with True fold_try_keeps_head [of "[c]" v cs] show ?thesis by (simp add: Let_def)
  next
    case False
    with Cons.IH show ?thesis by simp
  qed
qed

lemma fold_concat_map:
  "fold f (concat (map h xs)) s = fold (\<lambda>x. fold f (h x)) xs s"
  by (induction xs arbitrary: s) simp_all

lemma synthesize_spec:
  assumes "\<forall>d\<in>set (least_agreements st).
             snd d < length (forwards_predictions st) \<and> snd d < length (backwards_predictions st)"
  shows "synthesize is_valid id_to_token tokens st
       = Inr (sort (least_agreements st),
              exposed_fix_spec is_valid id_to_token tokens (forwards_predictions st)
                (backwards_predictions st) (sort (least_agreements st)))"
proof -
  let ?attempt = "\<lambda>c fixes. if validates_spec is_valid tokens c then add_fix fixes c else fixes"
  let ?cands = "\<lambda>d. [remove_fix (snd d),
                       insert_fix (snd d) (id_to_token (forwards_predictions st ! snd d)),
                       insert_fix (snd d) (id_to_token (backwards_predictions st ! snd d))]"
  let ?top = "take 3 (sort (least_agreements st))"
  have "set ?top \<subseteq> set (least_agreements st)"
    using set_take_subset [of 3 "sort (least_agreements st)"] by simp
  then have range: "\<And>d. d \<in> set ?top \<Longrightarrow>
      snd d < length (forwards_predictions st) \<and> snd d < length (backwards_predictions st)"
    using assms by blast
  have "fold_err (fix_step is_valid id_to_token tokens (forwards_predictions st)
                    (backwards_predictions st)) ?top []
      = Inr (fold (\<lambda>d. fold ?attempt (?cands d)) ?top [])"
    by (rule fold_err_pure) (simp only: fix_step_pure range)
  also have "fold (\<lambda>d. fold ?attempt (?cands d)) ?top []
      = fold ?attempt (candidates_spec id_to_token (forwards_predictions st)
                     (backwards_predictions st) (sort (least_agreements st))) []"
    by (simp only: candidates_spec_def fold_concat_map)
  finally show ?thesis
    using fold_try_first [of "validates_spec is_valid tokens"
        "candidates_spec id_to_token (forwards_predictions st)
           (backwards_predictions st) (sort (least_agreements st))"]
    by (simp add: synthesize_def Let_def exposed_fix_spec_def)
qed

lemma detect_loop_in_range:
  assumes "detect_loop fp bp tokens fv = Inr st"
  shows "\<forall>d\<in>set (least_agreements st).
             snd d < length (forwards_predictions st) \<and> snd d < length (backwards_predictions st)"
proof
  fix d assume "d \<in> set (least_agreements st)"
  then have "snd d \<in> set (map snd (least_agreements st))" by simp
  then have "snd d < sentence_length + length (contexts fv)"
    by (simp only: detect_loop_agreements(1) [OF assms]) simp
  then show "snd d < length (forwards_predictions st) \<and> snd d < length (backwards_predictions st)"
    by (simp only: detect_loop_agreements(3,4) [OF assms] simp_thms)
qed

lemma rank_and_fix_refines:
  assumes "detect_loop fp bp tokens fv = Inr st"
  shows "rank_and_fix fp bp is_valid id_to_token tokens fv
       = Inr (sort (least_agreements st),
              exposed_fix_spec is_valid id_to_token tokens (forwards_predictions st)
                (backwards_predictions st) (sort (least_agreements st)))"
  using synthesize_spec [OF detect_loop_in_range [OF assms]] assms
  by (simp add: rank_and_fix_def)

text \<open>
  C4. Whenever the detection loop completes, \<^verbatim>\<open>rank_and_fix\<close> returns the sorted
  agreements together with the fix the specification describes: among the candidates of
  the first three ranked positions only, taken position by position as remove,
  insert-forward-prediction, insert-backward-prediction, the first one that validates, and
  none when no candidate validates. Fix synthesis itself raises no error.
\<close>

theorem rank_and_fix_exposed_fix:
  assumes "detect_loop fp bp tokens fv = Inr st"
  shows "rank_and_fix fp bp is_valid id_to_token tokens fv
       = Inr (sort (least_agreements st),
              find (validates_spec is_valid tokens)
                (concat (map (\<lambda>d. [remove_fix (snd d),
                                    insert_fix (snd d) (id_to_token (forwards_predictions st ! snd d)),
                                    insert_fix (snd d) (id_to_token (backwards_predictions st ! snd d))])
                           (take 3 (sort (least_agreements st))))))"
  using rank_and_fix_refines [OF assms, of is_valid id_to_token]
  by (simp only: exposed_fix_spec_def candidates_spec_def)

theorem rank_and_fix_exposed_fix_witness:
  "rank_and_fix sample_forwards sample_backwards (\<lambda>ts. length ts = 41) sample_id_to_token
       sample_tokens sample_vector
     = Inr ([(- 2, 21), (0, 20)],
            Some \<lparr>kind = Insert, location = 21,
                  token = Some \<lparr>tok_kind = ''Identifier'', tok_text = ''x'', line = 0\<rparr>\<rparr>)
   \<and> candidates_spec sample_id_to_token (replicate 20 None @ [Some 0, Some 0])
         (replicate 20 None @ [Some 0, Some 1]) [(- 2, 21), (0, 20)]
       = [remove_fix 21, insert_fix 21 (sample_id_to_token (Some 0)),
          insert_fix 21 (sample_id_to_token (Some 1)),
          remove_fix 20, insert_fix 20 (sample_id_to_token (Some 0)),
          insert_fix 20 (sample_id_to_token (Some 0))]"
proof -
  let ?st = "\<lparr>least_agreements = [(0, 20), (- 2, 21)],
            forwards_predictions = replicate 20 None @ [Some 0, Some 0],
            backwards_predictions = replicate 20 None @ [Some 0, Some 1]\<rparr>"
  have ranked: "sort [(0 :: real, 20 :: nat), (- 2, 21)] = [(- 2, 21), (0, 20)]"
    by simp
  have cands: "candidates_spec sample_id_to_token (replicate 20 None @ [Some 0, Some 0])
         (replicate 20 None @ [Some 0, Some 1]) [(- 2, 21), (0, 20)]
       = [remove_fix 21, insert_fix 21 (sample_id_to_token (Some 0)),
          insert_fix 21 (sample_id_to_token (Some 1)),
          remove_fix 20, insert_fix 20 (sample_id_to_token (Some 0)),
          insert_fix 20 (sample_id_to_token (Some 0))]"
    by code_simp
  have exposed: "exposed_fix_spec (\<lambda>ts. length ts = 41) sample_id_to_token sample_tokens
                (replicate 20 None @ [Some 0, Some 0]) (replicate 20 None @ [Some 0, Some 1])
                [(- 2, 21), (0, 20)]
      = Some \<lparr>kind = Insert, location = 21,
                  token = Some \<lparr>tok_kind = ''Identifier'', tok_text = ''x'', line = 0\<rparr>\<rparr>"
    by code_simp
  from rank_and_fix_exposed_fix [OF sample_detect, of "\<lambda>ts. length ts = 41" sample_id_to_token]
  have "rank_and_fix sample_forwards sample_backwards (\<lambda>ts. length ts = 41) sample_id_to_token
       sample_tokens sample_vector
     = Inr ([(- 2, 21), (0, 20)],
            exposed_fix_spec (\<lambda>ts. length ts = 41) sample_id_to_token sample_tokens
                (replicate 20 None @ [Some 0, Some 0]) (replicate 20 None @ [Some 0, Some 1])
                [(- 2, 21), (0, 20)])"
    by (simp only: ranked detect_state.simps exposed_fix_spec_def candidates_spec_def)
  then show ?thesis
    by (simp only: exposed cands simp_thms)
qed

section \<open>Agreement scores and the ranked list\<close>

lemma rank_and_fix_Inr:
  assumes "rank_and_fix fp bp is_valid id_to_token tokens fv = Inr (ranked, fx)"
  shows "\<exists>st. detect_loop fp bp tokens fv = Inr st \<and> ranked = sort (least_agreements st)"
  using assms
  by (auto simp: rank_and_fix_def synthesize_def Let_def bind_err_Inr_iff)

lemma scored_agreement:
  assumes run: "detect_loop fp bp tokens fv = Inr st"
    and ctx: "(k, ((prefix, tok), (suffix, btok))) \<in> set (enumerate sentence_length (contexts fv))"
    and score: "squared_error_agreement (fp prefix) (bp suffix) = Inr r"
  shows "(r, k) \<in> set (least_agreements st)"
proof -
  let ?j = "k - sentence_length"
  from ctx have k: "sentence_length \<le> k" "?j < length (contexts fv)"
    and at: "contexts fv ! ?j = ((prefix, tok), (suffix, btok))"
    by (auto simp: in_set_enumerate_eq)
  have len: "length (least_agreements st) = length (contexts fv)"
    using detect_loop_agreements(2) [OF run] by (simp add: list_all2_lengthD)
  have "squared_error_agreement (fp (fst (fst (contexts fv ! ?j)))) (bp (fst (snd (contexts fv ! ?j))))
        = Inr (fst (least_agreements st ! ?j))"
    using detect_loop_agreements(2) [OF run] k(2) by (simp add: list_all2_conv_all_nth)
  with at score have "fst (least_agreements st ! ?j) = r" by simp
  moreover have "snd (least_agreements st ! ?j) = k"
  proof -
    have "map snd (least_agreements st) ! ?j = sentence_length + ?j"
      using k(2) by (simp only: detect_loop_agreements(1) [OF run] nth_upt)
    then show ?thesis using k len by simp
  qed
  ultimately have "least_agreements st ! ?j = (r, k)" by (simp add: prod_eq_iff)
  then show ?thesis using k(2) len by (metis nth_mem)
qed

lemma sorted_positions:
  assumes "sorted xs" "x \<in> set xs" "y \<in> set xs" "x < y"
  shows "\<exists>i j. i < j \<and> j < length xs \<and> xs ! i = x \<and> xs ! j = y"
proof -
  from assms(2,3) obtain i j where ij: "i < length xs" "xs ! i = x" "j < length xs" "xs ! j = y"
    by (auto simp: in_set_conv_nth)
  have "i < j"
  proof (rule ccontr)
    assume "\<not> i < j"
    then have "j \<le> i" by simp
    then have "xs ! j \<le> xs ! i" using assms(1) ij(1) by (simp add: sorted_nth_mono)
    with ij assms(4) show False by simp
  qed
  with ij show ?thesis by blast
qed

text \<open>
  C1. For prediction vectors of equal length the agreement score is the negated sum of
  the squared entry-wise differences. For \<^verbatim>\<open>[1,0,0]\<close> against \<^verbatim>\<open>[0,1,0]\<close> it is \<open>-2\<close>,
  for \<^verbatim>\<open>[0.5,0.5,0]\<close> against itself it is \<open>0\<close>; so whenever \<^verbatim>\<open>rank_and_fix\<close> returns
  for a file in which position \<open>p\<close> gets the first pair of predictions and position \<open>q\<close>
  the second, the returned list is sorted ascending and holds the agreement of \<open>p\<close>, with
  the strictly lower score, before that of \<open>q\<close>.
\<close>

theorem agreement_score_and_ranking:
  "(length fwd = length bwd \<longrightarrow>
      squared_error_agreement fwd bwd = Inr (- (\<Sum>i<length fwd. (fwd ! i - bwd ! i) ^ 2)))
   \<and> squared_error_agreement [1, 0, 0] [0, 1, 0] = Inr (- 2)
   \<and> squared_error_agreement [1/2, 1/2, 0] [1/2, 1/2, 0] = Inr 0
   \<and> (rank_and_fix fp bp is_valid id_to_token tokens fv = Inr (ranked, fx)
       \<and> (p, ((prefix_p, tok_p), (suffix_p, btok_p))) \<in> set (enumerate sentence_length (contexts fv))
       \<and> fp prefix_p = [1, 0, 0] \<and> bp suffix_p = [0, 1, 0]
       \<and> (q, ((prefix_q, tok_q), (suffix_q, btok_q))) \<in> set (enumerate sentence_length (contexts fv))
       \<and> fp prefix_q = [1/2, 1/2, 0] \<and> bp suffix_q = [1/2, 1/2, 0]
      \<longrightarrow> sorted ranked
          \<and> (\<exists>i j. i < j \<and> j < length ranked \<and> ranked ! i = (- 2, p) \<and> ranked ! j = (0, q)))"
proof -
  have sp: "squared_error_agreement [1, 0, 0] [0, 1, 0] = Inr (- 2)"
    and sq: "squared_error_agreement [1/2, 1/2, 0] [1/2, 1/2, 0] = Inr 0"
    by (simp_all add: squared_error_agreement_def np_binop_def)
  have order: "sorted ranked
      \<and> (\<exists>i j. i < j \<and> j < length ranked \<and> ranked ! i = (- 2, p) \<and> ranked ! j = (0, q))"
    if run: "rank_and_fix fp bp is_valid id_to_token tokens fv = Inr (ranked, fx)"
      and cp: "(p, ((prefix_p, tok_p), (suffix_p, btok_p))) \<in> set (enumerate sentence_length (contexts fv))"
      and pp: "fp prefix_p = [1, 0, 0]" "bp suffix_p = [0, 1, 0]"
      and cq: "(q, ((prefix_q, tok_q), (suffix_q, btok_q))) \<in> set (enumerate sentence_length (contexts fv))"
      and pq: "fp prefix_q = [1/2, 1/2, 0]" "bp suffix_q = [1/2, 1/2, 0]"
  proof -
    from rank_and_fix_Inr [OF run] obtain st where
      st: "detect_loop fp bp tokens fv = Inr st" "ranked = sort (least_agreements st)"
      by blast
    have "(- 2, p) \<in> set ranked"
      using scored_agreement [OF st(1) cp] sp pp st(2) by simp
    moreover have "(0, q) \<in> set ranked"
      using scored_agreement [OF st(1) cq] sq pq st(2) by simp
    moreover have "sorted ranked" using st(2) by simp
    moreover have "(- 2 :: real, p) < (0, q)" by simp
    ultimately show ?thesis using sorted_positions by blast
  qed
  have formula: "length fwd = length bwd \<longrightarrow>
      squared_error_agreement fwd bwd = Inr (- (\<Sum>i<length fwd. (fwd ! i - bwd ! i) ^ 2))"
    by (rule impI) (rule squared_error_agreement_formula)
  show ?thesis
    apply (intro conjI)
       apply (rule formula)
      apply (rule sp)
     apply (rule sq)
    apply (intro impI)
    apply (elim conjE)
    apply (rule order; assumption)
    done
qed

theorem agreement_score_and_ranking_witness:
  "rank_and_fix sample_forwards sample_backwards (\<lambda>ts. length ts = 41) sample_id_to_token
       sample_tokens sample_vector
     = Inr ([(- 2, 21), (0, 20)],
            Some \<lparr>kind = Insert, location = 21,
                  token = Some \<lparr>tok_kind = ''Identifier'', tok_text = ''x'', line = 0\<rparr>\<rparr>)
   \<and> (21, ([1..<21], 21), ([22..<41] @ [99], 21))
        \<in> set (enumerate sentence_length (contexts sample_vector))
   \<and> sample_forwards [1..<21] = [1, 0, 0] \<and> sample_backwards ([22..<41] @ [99]) = [0, 1, 0]
   \<and> (20, ([0..<20], 20), ([21..<41], 20))
        \<in> set (enumerate sentence_length (contexts sample_vector))
   \<and> sample_forwards [0..<20] = [1/2, 1/2, 0] \<and> sample_backwards [21..<41] = [1/2, 1/2, 0]
   \<and> sorted [(- 2 :: real, 21 :: nat), (0, 20)]
   \<and> (\<exists>i j. i < j \<and> j < length [(- 2 :: real, 21 :: nat), (0, 20)]
          \<and> [(- 2 :: real, 21 :: nat), (0, 20)] ! i = (- 2, 21)
          \<and> [(- 2 :: real, 21 :: nat), (0, 20)] ! j = (0, 20))
   \<and> length [1, 0, 0 :: real] = length [0, 1, 0 :: real]
   \<and> squared_error_agreement [1, 0, 0] [0, 1, 0]
       = Inr (- (\<Sum>i<length [1, 0, 0 :: real]. ([1, 0, 0] ! i - [0, 1, 0] ! i) ^ 2))"
proof -
  have p: "(21, ([1..<21], 21), ([22..<41] @ [99], 21))
        \<in> set (enumerate sentence_length (contexts sample_vector))"
    and q: "(20, ([0..<20], 20), ([21..<41], 20))
        \<in> set (enumerate sentence_length (contexts sample_vector))"
    by (simp_all add: sample_contexts)
  have preds: "sample_forwards [1..<21] = [1, 0, 0]" "sample_backwards ([22..<41] @ [99]) = [0, 1, 0]"
    "sample_forwards [0..<20] = [1/2, 1/2, 0]" "sample_backwards [21..<41] = [1/2, 1/2, 0]"
    by (simp_all add: sample_forwards_def sample_backwards_def upt_rec)
  have len: "length [1, 0, 0 :: real] = length [0, 1, 0 :: real]" by simp
  from agreement_score_and_ranking [where fwd = "[1, 0, 0]" and bwd = "[0, 1, 0]"
      and fp = sample_forwards and bp = sample_backwards and is_valid = "\<lambda>ts. length ts = 41"
      and id_to_token = sample_id_to_token and tokens = sample_tokens and fv = sample_vector
      and ranked = "[(- 2, 21), (0, 20)]"
      and fx = "Some \<lparr>kind = Insert, location = 21,
                  token = Some \<lparr>tok_kind = ''Identifier'', tok_text = ''x'', line = 0\<rparr>\<rparr>"
      and p = 21 and prefix_p = "[1..<21]" and tok_p = 21 and suffix_p = "[22..<41] @ [99]"
      and btok_p = 21 and q = 20 and prefix_q = "[0..<20]" and tok_q = 20
      and suffix_q = "[21..<41]" and btok_q = 20]
    sample_rank_and_fix p q preds len
  show ?thesis by blast
qed

section \<open>Properties of the mutation harness\<close>

subsection \<open>The LOAD step\<close>

lemma load_Inr:
  assumes "load vector tokens = Inr (vector', tokens')"
  shows "vector \<noteq> []" "hd vector = 0" "last vector = 99" "vector' = vector"
    "tokens' = Inl ''start'' # map Inr tokens @ [Inl ''end'']"
  using assms
  by (auto simp: load_def Let_def bind_err_Inr_iff py_assert_Inr_iff py_index_Inr_iff
      hd_conv_nth last_conv_nth)

lemma load_rejects:
  assumes "vector \<noteq> []" "hd vector \<noteq> 0 \<or> last vector \<noteq> 99"
  shows "load vector tokens = Inl AssertionError"
  using assms
  by (auto simp: load_def Let_def py_assert_def py_index_def hd_conv_nth last_conv_nth)

lemma load_accepts:
  assumes "vector \<noteq> []" "hd vector = 0" "last vector = 99"
  shows "load vector tokens = Inr (vector, Inl ''start'' # map Inr tokens @ [Inl ''end''])"
  using assms
  by (auto simp: load_def Let_def py_assert_def py_index_def hd_conv_nth last_conv_nth)

text \<open>
  C5 (the length of the vector is not checked). The two sentinel assertions of the LOAD
  step work: \<open>load_Inr\<close> and \<open>load_rejects\<close> show that a vector passes exactly when it
  starts with 0 and ends with 99, and that a violation is an AssertionError. The third
  assertion, under the comment that both files must use the same indices, compares
  \<^verbatim>\<open>len(tokens)\<close> with itself. So the vector \<^verbatim>\<open>[0, 99]\<close> is accepted with a sequence of
  one token, although its length is not the number of tokens plus two.
\<close>

theorem load_accepts_length_mismatch:
  "load [0, 99] [\<lparr>tok_kind = ''Punctuator'', tok_text = '';'', line = 1\<rparr>]
     = Inr ([0, 99],
            [Inl ''start'', Inr \<lparr>tok_kind = ''Punctuator'', tok_text = '';'', line = 1\<rparr>,
             Inl ''end''])
   \<and> length [0, 99 :: nat]
       \<noteq> length [\<lparr>tok_kind = ''Punctuator'', tok_text = '';'', line = 1\<rparr>] + 2"
  by (simp add: load_def Let_def py_assert_def py_index_def)

subsection \<open>The RECORD step\<close>

lemma isl_bind_err: "isl (bind_err m f) \<longleftrightarrow> isl m \<or> (\<exists>x. m = Inr x \<and> isl (f x))"
  by (cases m) auto

lemma record_result_no_fix_row:
  "record_result fno file m correct tokens ranked None = Inr row \<Longrightarrow>
   \<not> fixed row \<and> fkind row = None \<and> fpos row = None \<and> ftoken row = None"
  by (auto simp: record_result_def bind_err_Inr_iff)

lemma record_result_error_independent:
  "isl (record_result fno file m correct tokens ranked fx)
     = isl (record_result fno file m correct tokens ranked fx')"
  by (simp add: record_result_def isl_bind_err)

lemma first_with_line_no_from_total:
  "\<forall>d\<in>set ds. snd d < length tokens \<and> (\<exists>t. tokens ! snd d = Inr t) \<Longrightarrow>
   \<exists>r. first_with_line_no_from n ds correct tokens = Inr r"
proof (induction ds arbitrary: n)
  case Nil
  then show ?case by simp
next
  case (Cons d ds)
  then obtain t where t: "snd d < length tokens" "tokens ! snd d = Inr t" by auto
  from Cons.IH [of "Suc n"] Cons.prems
  obtain r where "first_with_line_no_from (Suc n) ds correct tokens = Inr r" by auto
  with t show ?case by (simp add: py_index_def line_of_def)
qed

lemma record_result_completes:
  assumes "ranked \<noteq> []"
    and "\<forall>d\<in>set ranked. snd d < length tokens \<and> (\<exists>t. tokens ! snd d = Inr t)"
  shows "\<exists>row. record_result fno file m correct tokens ranked fx = Inr row"
proof -
  from assms(1) obtain top rest where ranked: "ranked = top # rest" by (cases ranked) auto
  with assms(2) obtain t where t: "snd top < length tokens" "tokens ! snd top = Inr t" by auto
  from first_with_line_no_from_total [OF assms(2)]
  obtain r where "first_with_line_no ranked correct tokens = Inr r"
    by (auto simp: first_with_line_no_def)
  with t ranked show ?thesis
    by (simp add: record_result_def py_index_def line_of_def)
qed

text \<open>
  C9 (as stated, refuted). A trial in which no candidate validates need not complete: for
  a mutated file without a scored position \<^verbatim>\<open>rank_and_fix\<close> returns the empty ranking and
  no fix, and the RECORD step raises IndexError at \<^verbatim>\<open>ranked_locations[0]\<close>; no row is
  written.
\<close>

theorem no_fix_trial_counterexample:
  "rank_and_fix sample_forwards sample_backwards (\<lambda>ts. False) sample_id_to_token [] [0, 99]
     = Inr ([], None)
   \<and> trial [''h'' \<mapsto> 0] (\<lambda>fno. sample_forwards) (\<lambda>fno. sample_backwards) (\<lambda>ts. False)
       sample_id_to_token ''h''
       \<lparr>mutation_name = ''remove'', mutation_location = 1, mutation_token = None\<rparr>
       [0, 5, 99] [\<lparr>tok_kind = ''Punctuator'', tok_text = '';'', line = 1\<rparr>] [] [0, 99]
     = Inl IndexError"
  by code_simp

text \<open>
  C9 (amended). In a trial that reaches detection and in which no candidate validates,
  \<^verbatim>\<open>rank_and_fix\<close> returns no fix; every row the trial writes has \<^verbatim>\<open>fixed\<close> false and
  none for the fix kind, position and token; the trial completes whenever the ranking is
  not empty and every ranked position lies on a token of the padded original sequence;
  and the missing fix raises no error of its own: the trial fails exactly where the RECORD
  step would fail with a fix.
\<close>

theorem no_fix_trial:
  assumes fold: "FOLDS fhash = Some fno"
    and loaded: "load vector tokens = Inr (vector', tokens')"
    and located: "py_index tokens' (mutation_location m) = Inr t" "line_of t = Inr correct"
    and detected: "detect_loop (forwards fno) (backwards fno) mtokens mvector = Inr st"
    and no_fix: "\<forall>c\<in>set (candidates_spec id_to_token (forwards_predictions st)
                            (backwards_predictions st) (sort (least_agreements st))).
                   \<not> validates_spec is_valid mtokens c"
  shows "rank_and_fix (forwards fno) (backwards fno) is_valid id_to_token mtokens mvector
           = Inr (sort (least_agreements st), None)
     \<and> (\<forall>row. trial FOLDS forwards backwards is_valid id_to_token fhash m vector tokens
                  mtokens mvector = Inr row
              \<longrightarrow> \<not> fixed row \<and> fkind row = None \<and> fpos row = None \<and> ftoken row = None)
     \<and> (least_agreements st \<noteq> []
          \<and> (\<forall>d\<in>set (least_agreements st).
                 snd d < length tokens' \<and> (\<exists>t. tokens' ! snd d = Inr t))
        \<longrightarrow> (\<exists>row. trial FOLDS forwards backwards is_valid id_to_token fhash m vector tokens
                        mtokens mvector = Inr row))
     \<and> (\<forall>f. isl (trial FOLDS forwards backwards is_valid id_to_token fhash m vector tokens
                     mtokens mvector)
              = isl (record_result fno fhash m correct tokens' (sort (least_agreements st))
                       (Some f)))"
proof -
  let ?ranked = "sort (least_agreements st)"
  have "exposed_fix_spec is_valid id_to_token mtokens (forwards_predictions st)
          (backwards_predictions st) ?ranked = None"
    using no_fix by (simp add: exposed_fix_spec_def find_None_iff)
  with rank_and_fix_refines [OF detected, of is_valid id_to_token]
  have raf: "rank_and_fix (forwards fno) (backwards fno) is_valid id_to_token mtokens mvector
           = Inr (?ranked, None)"
    by simp
  have tr: "trial FOLDS forwards backwards is_valid id_to_token fhash m vector tokens mtokens mvector
       = record_result fno fhash m correct tokens' ?ranked None"
    using fold loaded located raf by (simp add: trial_def)
  have row: "\<forall>row. record_result fno fhash m correct tokens' ?ranked None = Inr row
              \<longrightarrow> \<not> fixed row \<and> fkind row = None \<and> fpos row = None \<and> ftoken row = None"
    using record_result_no_fix_row by blast
  have completes: "least_agreements st \<noteq> []
          \<and> (\<forall>d\<in>set (least_agreements st).
                 snd d < length tokens' \<and> (\<exists>t. tokens' ! snd d = Inr t))
        \<longrightarrow> (\<exists>row. record_result fno fhash m correct tokens' ?ranked None = Inr row)"
  proof
    assume a: "least_agreements st \<noteq> []
          \<and> (\<forall>d\<in>set (least_agreements st).
                 snd d < length tokens' \<and> (\<exists>t. tokens' ! snd d = Inr t))"
    then have "?ranked \<noteq> []" by (metis length_0_conv length_sort)
    moreover from a have "\<forall>d\<in>set ?ranked. snd d < length tokens' \<and> (\<exists>t. tokens' ! snd d = Inr t)"
      by simp
    ultimately show "\<exists>row. record_result fno fhash m correct tokens' ?ranked None = Inr row"
      by (rule record_result_completes)
  qed
  have indep: "\<forall>f. isl (record_result fno fhash m correct tokens' ?ranked None)
              = isl (record_result fno fhash m correct tokens' ?ranked (Some f))"
    using record_result_error_independent by blast
  show ?thesis
    unfolding tr using raf row completes indep by (intro conjI)
qed

theorem no_fix_trial_witness:
  "rank_and_fix sample_forwards sample_backwards (\<lambda>ts. False) sample_id_to_token
       sample_tokens sample_vector
     = Inr ([(- 2, 21), (0, 20)], None)
   \<and> trial [''h'' \<mapsto> 0] (\<lambda>fno. sample_forwards) (\<lambda>fno. sample_backwards) (\<lambda>ts. False)
       sample_id_to_token ''h'' sample_mutation sample_vector sample_tokens
       sample_tokens sample_vector
     = Inr \<lparr>fold_no = 0, file_hash = ''h'', mkind = ''substitute'', mtoken = Some 21,
            mpos = 21, correct_line = 21, line_of_top_rank = 21, rank_correct_line = Some 1,
            fixed = False, fkind = None, fpos = None, ftoken = None, same_fix = None\<rparr>"
proof -
  let ?st = "\<lparr>least_agreements = [(0, 20), (- 2, 21)],
            forwards_predictions = replicate 20 None @ [Some 0, Some 0],
            backwards_predictions = replicate 20 None @ [Some 0, Some 1]\<rparr>"
  let ?padded = "Inl ''start'' # map Inr sample_tokens @ [Inl ''end'']"
  let ?t = "Inr \<lparr>tok_kind = ''Punctuator'', tok_text = '';'', line = 21\<rparr> :: padded_token"
  have fold: "[''h'' \<mapsto> 0 :: nat] ''h'' = Some 0" by simp
  have loaded: "load sample_vector sample_tokens = Inr (sample_vector, ?padded)"
    by (rule load_accepts) (simp_all add: sample_vector_def)
  have located: "py_index ?padded (mutation_location sample_mutation) = Inr ?t"
    by code_simp
  have line: "line_of ?t = Inr 21" by (simp add: line_of_def)
  have no_fix: "\<forall>c\<in>set (candidates_spec sample_id_to_token (forwards_predictions ?st)
                            (backwards_predictions ?st) (sort (least_agreements ?st))).
                   \<not> validates_spec (\<lambda>ts. False) sample_tokens c"
    by (simp add: validates_spec_def split: fix_kind.splits option.splits)
  have ranked: "sort [(0 :: real, 20 :: nat), (- 2, 21)] = [(- 2, 21), (0, 20)]"
    by simp
  have run: "trial [''h'' \<mapsto> 0] (\<lambda>fno. sample_forwards) (\<lambda>fno. sample_backwards) (\<lambda>ts. False)
       sample_id_to_token ''h'' sample_mutation sample_vector sample_tokens
       sample_tokens sample_vector
     = Inr \<lparr>fold_no = 0, file_hash = ''h'', mkind = ''substitute'', mtoken = Some 21,
            mpos = 21, correct_line = 21, line_of_top_rank = 21, rank_correct_line = Some 1,
            fixed = False, fkind = None, fpos = None, ftoken = None, same_fix = None\<rparr>"
    by code_simp
  from no_fix_trial [where FOLDS = "[''h'' \<mapsto> 0]" and fhash = "''h''" and fno = 0
      and forwards = "\<lambda>fno. sample_forwards" and backwards = "\<lambda>fno. sample_backwards"
      and vector = sample_vector and tokens = sample_tokens and vector' = sample_vector
      and tokens' = ?padded and m = sample_mutation and t = ?t and correct = 21
      and mtokens = sample_tokens and mvector = sample_vector and st = ?st
      and is_valid = "\<lambda>ts. False" and id_to_token = sample_id_to_token,
      OF fold loaded located line sample_detect no_fix]
  have "rank_and_fix sample_forwards sample_backwards (\<lambda>ts. False) sample_id_to_token
       sample_tokens sample_vector
     = Inr (sort (least_agreements ?st), None)"
    by blast
  then show ?thesis using run by (simp only: detect_state.simps ranked simp_thms)
qed

end
